theory Spec2Isabelle
  imports Complex_Main "HOL-Library.Char_ord" "HOL-Library.List_Lexorder"
begin

section \<open>Role and permission middleware\<close>

text \<open>
  The middleware module keeps two tables as plain JavaScript object literals and reads
  them with \<^verbatim>\<open>table[key] || fallback\<close>. A property read on an object literal
  finds the literal's own properties first and the members of \<^verbatim>\<open>Object.prototype\<close>
  after them, so a read has three outcomes: an own value, an inherited member, or
  \<^verbatim>\<open>undefined\<close>.
\<close>

datatype 'a js_property = Own 'a | Inherited string | Undefined

text \<open>
  The members every object literal inherits, each with the string JavaScript turns it
  into when it is compared (the members are functions, and \<^verbatim>\<open>__proto__\<close> is the
  prototype object itself).
\<close>

definition objectPrototype :: "(string \<times> string) list" where
  "objectPrototype =
    [(''constructor'', ''function Object() { [native code] }''),
     (''__defineGetter__'', ''function __defineGetter__() { [native code] }''),
     (''__defineSetter__'', ''function __defineSetter__() { [native code] }''),
     (''hasOwnProperty'', ''function hasOwnProperty() { [native code] }''),
     (''__lookupGetter__'', ''function __lookupGetter__() { [native code] }''),
     (''__lookupSetter__'', ''function __lookupSetter__() { [native code] }''),
     (''isPrototypeOf'', ''function isPrototypeOf() { [native code] }''),
     (''propertyIsEnumerable'', ''function propertyIsEnumerable() { [native code] }''),
     (''toString'', ''function toString() { [native code] }''),
     (''valueOf'', ''function valueOf() { [native code] }''),
     (''__proto__'', ''[object Object]''),
     (''toLocaleString'', ''function toLocaleString() { [native code] }'')]"

text \<open>
  \<^verbatim>\<open>obj[key]\<close> for an object literal given by its entries in source order; a later
  entry with the same key replaces an earlier one.
\<close>

definition jsGet :: "(string \<times> 'a) list \<Rightarrow> string \<Rightarrow> 'a js_property" where
  "jsGet obj k =
    (case map_of (rev obj) k of
       Some v \<Rightarrow> Own v
     | None \<Rightarrow> (case map_of objectPrototype k of
                  Some s \<Rightarrow> Inherited s
                | None \<Rightarrow> Undefined))"

subsection \<open>The role hierarchy\<close>

definition roleHierarchy :: "(string \<times> nat) list" where
  "roleHierarchy =
    [(''SystemAdministrator'', 100),
     (''ElectoralCommissioner'', 90),
     (''SecurityOfficer'', 85),
     (''SystemAuditor'', 80),
     (''RegionalElectoralOfficer'', 70),
     (''ElectionManager'', 65),
     (''ResultVerificationOfficer'', 60),
     (''PollingUnitOfficer'', 50),
     (''VoterRegistrationOfficer'', 45),
     (''CandidateRegistrationOfficer'', 40),
     (''Observer'', 20),
     (''Voter'', 10)]"

text \<open>
  The value of \<^verbatim>\<open>roleHierarchy[role] || 0\<close>: a number, or an inherited object
  (which is truthy, so the fallback is not taken).
\<close>

datatype jsval = JNum nat | JObject string

definition orZero :: "nat js_property \<Rightarrow> jsval" where
  "orZero v = (case v of Own n \<Rightarrow> JNum n | Inherited s \<Rightarrow> JObject s | Undefined \<Rightarrow> JNum 0)"

text \<open>
  \<^verbatim>\<open>a >= b\<close>: numbers compare as numbers; two objects compare by their strings;
  an object against a number turns into \<^verbatim>\<open>NaN\<close>, and every comparison with
  \<^verbatim>\<open>NaN\<close> is false.
\<close>

fun jsGe :: "jsval \<Rightarrow> jsval \<Rightarrow> bool" where
  "jsGe (JNum a) (JNum b) = (b \<le> a)"
| "jsGe (JObject s) (JObject t) = (\<not> s < t)"
| "jsGe (JNum a) (JObject t) = False"
| "jsGe (JObject s) (JNum b) = False"

definition hasEqualOrHigherRole :: "string \<Rightarrow> string \<Rightarrow> bool" where
  "hasEqualOrHigherRole userRole requiredRole =
    (let userRoleValue = orZero (jsGet roleHierarchy userRole);
         requiredRoleValue = orZero (jsGet roleHierarchy requiredRole)
     in jsGe userRoleValue requiredRoleValue)"

subsection \<open>Requests, errors and what a middleware does\<close>

text \<open>
  A permission object of the user carries its name. \<^verbatim>\<open>req.user\<close>,
  \<^verbatim>\<open>adminType\<close> and \<^verbatim>\<open>permissions\<close> may each be missing.
\<close>

record PermissionObject =
  permissionName :: string

record AuthUser =
  adminType :: "string option"
  permissions :: "PermissionObject list option"

record AuthRequest =
  user :: "AuthUser option"

text \<open>
  What is thrown: an \<^verbatim>\<open>ApiError(status, message, code)\<close>, or a runtime
  \<^verbatim>\<open>TypeError\<close>. A middleware or handler ends by calling \<^verbatim>\<open>next()\<close>,
  by calling \<^verbatim>\<open>next(error)\<close>, or by sending a JSON response.
\<close>

datatype thrown = ApiError nat string string | TypeError string | Error string

record Response =
  statusCode :: nat
  success :: bool
  message :: string

datatype outcome = Next | NextError thrown | Responded Response

text \<open>An argument that is one value or an array of values (\<^verbatim>\<open>T | T[]\<close>).\<close>

datatype 'a one_or_many = One 'a | Many "'a list"

text \<open>\<^verbatim>\<open>!userRole\<close>: the role is missing or the empty string.\<close>

definition noRole :: "string option \<Rightarrow> bool" where
  "noRole r = (case r of None \<Rightarrow> True | Some s \<Rightarrow> s = [])"

definition requireRole :: "string one_or_many \<Rightarrow> AuthRequest \<Rightarrow> outcome" where
  "requireRole roles req =
    (case user req of
       None \<Rightarrow> NextError (ApiError 401 ''User not authenticated'' ''AUTHENTICATION_REQUIRED'')
     | Some u \<Rightarrow>
        (case roles of
           Many rs \<Rightarrow>
             (if noRole (adminType u)
              then NextError (ApiError 403 ''User has no assigned role'' ''ROLE_REQUIRED'')
              else if \<not> list_ex (\<lambda>role. hasEqualOrHigherRole (the (adminType u)) role) rs
              then NextError (ApiError 403 ''Insufficient permissions'' ''INSUFFICIENT_PERMISSIONS'')
              else Next)
         | One r \<Rightarrow>
             (if noRole (adminType u)
              then NextError (ApiError 403 ''User has no assigned role'' ''ROLE_REQUIRED'')
              else if \<not> hasEqualOrHigherRole (the (adminType u)) r
              then NextError (ApiError 403 ''Insufficient permissions'' ''INSUFFICIENT_PERMISSIONS'')
              else Next)))"

subsection \<open>Default permissions of a role\<close>

text \<open>
  The keys and entries of \<^verbatim>\<open>rolePermissions\<close> are members of the enums
  \<^verbatim>\<open>UserRole\<close> and \<^verbatim>\<open>Permission\<close>, which the module imports from the
  types module. The members are modelled by name; the strings they stand for are the
  parameters \<open>roleStr\<close> and \<open>permStr\<close>.
\<close>

datatype UserRole =
  SYSTEM_ADMIN | ELECTORAL_COMMISSIONER | SECURITY_OFFICER | SYSTEM_AUDITOR
  | REGIONAL_OFFICER | ELECTION_MANAGER | RESULT_VERIFICATION_OFFICER
  | POLLING_UNIT_OFFICER | VOTER_REGISTRATION_OFFICER | CANDIDATE_REGISTRATION_OFFICER
  | OBSERVER | VOTER

datatype Permission =
  MANAGE_USERS | MANAGE_ROLES | MANAGE_SYSTEM_SETTINGS | VIEW_AUDIT_LOGS
  | GENERATE_REPORTS | MANAGE_SECURITY_SETTINGS | MANAGE_ENCRYPTION_KEYS
  | VIEW_SECURITY_LOGS | CREATE_ELECTION | EDIT_ELECTION | DELETE_ELECTION
  | MANAGE_CANDIDATES | PUBLISH_RESULTS | VIEW_RESULTS | EXPORT_RESULTS
  | MANAGE_POLLING_UNITS | ASSIGN_OFFICERS | VERIFY_RESULTS | VERIFY_VOTERS
  | REGISTER_VOTERS | RESET_VOTER_PASSWORD | VIEW_ELECTIONS | CAST_VOTE

definition rolePermissionEntries :: "(UserRole \<times> Permission list) list" where
  "rolePermissionEntries =
    [(SYSTEM_ADMIN,
        [MANAGE_USERS, MANAGE_ROLES, MANAGE_SYSTEM_SETTINGS, VIEW_AUDIT_LOGS,
         GENERATE_REPORTS, MANAGE_SECURITY_SETTINGS, MANAGE_ENCRYPTION_KEYS,
         VIEW_SECURITY_LOGS]),
     (ELECTORAL_COMMISSIONER,
        [CREATE_ELECTION, EDIT_ELECTION, DELETE_ELECTION, MANAGE_CANDIDATES,
         PUBLISH_RESULTS, GENERATE_REPORTS, VIEW_RESULTS, EXPORT_RESULTS]),
     (SECURITY_OFFICER,
        [MANAGE_SECURITY_SETTINGS, MANAGE_ENCRYPTION_KEYS, VIEW_SECURITY_LOGS,
         VIEW_AUDIT_LOGS]),
     (SYSTEM_AUDITOR, [VIEW_AUDIT_LOGS, GENERATE_REPORTS, VIEW_SECURITY_LOGS]),
     (REGIONAL_OFFICER, [MANAGE_POLLING_UNITS, ASSIGN_OFFICERS, VIEW_RESULTS]),
     (ELECTION_MANAGER, [EDIT_ELECTION, MANAGE_CANDIDATES, VIEW_RESULTS, GENERATE_REPORTS]),
     (RESULT_VERIFICATION_OFFICER, [VIEW_RESULTS, VERIFY_RESULTS, EXPORT_RESULTS]),
     (POLLING_UNIT_OFFICER, [VERIFY_VOTERS]),
     (VOTER_REGISTRATION_OFFICER, [REGISTER_VOTERS, VERIFY_VOTERS, RESET_VOTER_PASSWORD]),
     (CANDIDATE_REGISTRATION_OFFICER, [MANAGE_CANDIDATES]),
     (OBSERVER, [VIEW_ELECTIONS, VIEW_RESULTS]),
     (VOTER, [VIEW_ELECTIONS, CAST_VOTE])]"

definition rolePermissions ::
  "(UserRole \<Rightarrow> string) \<Rightarrow> (Permission \<Rightarrow> string) \<Rightarrow> (string \<times> string list) list" where
  "rolePermissions roleStr permStr =
    map (\<lambda>(r, ps). (roleStr r, map permStr ps)) rolePermissionEntries"

text \<open>
  \<^verbatim>\<open>(rolePermissions[userRole] || []).includes(requiredPermission)\<close>. An inherited
  member is truthy and has no \<^verbatim>\<open>includes\<close>, so the call throws.
\<close>

definition roleHasPermission ::
  "(UserRole \<Rightarrow> string) \<Rightarrow> (Permission \<Rightarrow> string) \<Rightarrow> string \<Rightarrow> string \<Rightarrow> thrown + bool" where
  "roleHasPermission roleStr permStr userRole requiredPermission =
    (case jsGet (rolePermissions roleStr permStr) userRole of
       Own ps \<Rightarrow> Inr (requiredPermission \<in> set ps)
     | Undefined \<Rightarrow> Inr (requiredPermission \<in> set [])
     | Inherited s \<Rightarrow> Inl (TypeError ''permissions.includes is not a function''))"

text \<open>
  \<^verbatim>\<open>permissions.every(p => userPermissions.includes(p) || roleHasPermission(userRole, p))\<close>:
  left to right, stopping at the first permission that fails, and leaving by the
  exception if the callback throws.
\<close>

fun everyPermission ::
  "(UserRole \<Rightarrow> string) \<Rightarrow> (Permission \<Rightarrow> string) \<Rightarrow> string list \<Rightarrow> string \<Rightarrow> string list
    \<Rightarrow> thrown + bool" where
  "everyPermission roleStr permStr userPermissions userRole [] = Inr True"
| "everyPermission roleStr permStr userPermissions userRole (p # ps) =
    (if p \<in> set userPermissions
     then everyPermission roleStr permStr userPermissions userRole ps
     else (case roleHasPermission roleStr permStr userRole p of
             Inl e \<Rightarrow> Inl e
           | Inr True \<Rightarrow> everyPermission roleStr permStr userPermissions userRole ps
           | Inr False \<Rightarrow> Inr False))"

text \<open>\<^verbatim>\<open>req.user.permissions?.map(p => p.permissionName) || []\<close>\<close>

definition userPermissionNames :: "AuthUser \<Rightarrow> string list" where
  "userPermissionNames u =
    (case permissions u of None \<Rightarrow> [] | Some ps \<Rightarrow> map permissionName ps)"

definition toArray :: "'a one_or_many \<Rightarrow> 'a list" where
  "toArray x = (case x of Many xs \<Rightarrow> xs | One y \<Rightarrow> [y])"

definition requirePermission ::
  "(UserRole \<Rightarrow> string) \<Rightarrow> (Permission \<Rightarrow> string) \<Rightarrow> string one_or_many \<Rightarrow> AuthRequest
    \<Rightarrow> outcome" where
  "requirePermission roleStr permStr requiredPermissions req =
    (case user req of
       None \<Rightarrow> NextError (ApiError 401 ''User not authenticated'' ''AUTHENTICATION_REQUIRED'')
     | Some u \<Rightarrow>
        (let userRole = adminType u;
             userPermissions = userPermissionNames u
         in if noRole userRole
            then NextError (ApiError 403 ''User has no assigned role'' ''ROLE_REQUIRED'')
            else (case everyPermission roleStr permStr userPermissions (the userRole)
                         (toArray requiredPermissions) of
                    Inl e \<Rightarrow> NextError e
                  | Inr hasAccess \<Rightarrow>
                      (if \<not> hasAccess
                       then NextError (ApiError 403 ''Insufficient permissions''
                                         ''INSUFFICIENT_PERMISSIONS'')
                       else Next))))"

text \<open>
  The two readings the statements below compare the code with. The hierarchy value of
  a role: its number in the table, 0 when the table has no entry for it. The default
  permissions of a role: its entry in \<^verbatim>\<open>rolePermissions\<close>, none when it has no
  entry. A role name is ordinary when it is not the name of an inherited member.
\<close>

definition hierarchyValue :: "string \<Rightarrow> nat" where
  "hierarchyValue r = (case map_of roleHierarchy r of Some n \<Rightarrow> n | None \<Rightarrow> 0)"

definition roleDefaults ::
  "(UserRole \<Rightarrow> string) \<Rightarrow> (Permission \<Rightarrow> string) \<Rightarrow> string \<Rightarrow> string list" where
  "roleDefaults roleStr permStr r =
    (case map_of (rev (rolePermissions roleStr permStr)) r of Some ps \<Rightarrow> ps | None \<Rightarrow> [])"

definition ordinaryName :: "string \<Rightarrow> bool" where
  "ordinaryName r = (map_of objectPrototype r = None)"

text \<open>
  The explicit permissions of a user: the names of the permission objects the user
  carries, none when the user carries no list.
\<close>

definition explicitPermissions :: "AuthUser \<Rightarrow> string set" where
  "explicitPermissions u =
    (case permissions u of None \<Rightarrow> {} | Some objs \<Rightarrow> permissionName ` set objs)"

text \<open>
  One assignment of strings to the enum members that the tables use, for running the
  middleware on concrete requests.
\<close>

definition sampleRoleStr :: "UserRole \<Rightarrow> string" where
  "sampleRoleStr r = (if r = VOTER then ''Voter'' else ''Staff'')"

definition samplePermStr :: "Permission \<Rightarrow> string" where
  "samplePermStr q =
    (if q = CAST_VOTE then ''cast_vote''
     else if q = VIEW_ELECTIONS then ''view_elections'' else ''other'')"

subsection \<open>Password reset request\<close>

text \<open>
  The handler of \<^verbatim>\<open>POST /api/v1/auth/forgot-password\<close>. It calls the auth
  service and the audit service; what these calls return or throw is a parameter:
  \<open>generatePasswordResetToken\<close> for \<^verbatim>\<open>authService.generatePasswordResetToken(email)\<close>
  and \<open>createAuditLog\<close> for \<^verbatim>\<open>auditService.createAuditLog(userId, action, ip, userAgent, details)\<close>.
  Destructuring \<^verbatim>\<open>req.body\<close> throws when the body is missing, which the outer
  \<^verbatim>\<open>catch\<close> hands to \<^verbatim>\<open>next\<close>.
\<close>

datatype AuditActionType =
  REGISTRATION | LOGIN | MFA_VERIFY | ADMIN_LOGIN | TOKEN_REFRESH | LOGOUT
  | PASSWORD_RESET | PASSWORD_CHANGE

record ForgotPasswordBody =
  email :: "string option"

record Request =
  body :: "ForgotPasswordBody option"
  ip :: "string option"
  userAgent :: "string option"

text \<open>\<^verbatim>\<open>x || ''\<close> for a string that may be missing.\<close>

definition orEmpty :: "string option \<Rightarrow> string" where
  "orEmpty x = (case x of None \<Rightarrow> [] | Some s \<Rightarrow> s)"

definition forgotPassword ::
  "(string option \<Rightarrow> thrown + string)
    \<Rightarrow> (string \<Rightarrow> AuditActionType \<Rightarrow> string \<Rightarrow> string \<Rightarrow> string option \<Rightarrow> thrown + unit)
    \<Rightarrow> Request \<Rightarrow> outcome" where
  "forgotPassword generatePasswordResetToken createAuditLog req =
    (case body req of
       None \<Rightarrow> NextError (TypeError ''Cannot destructure property email of req.body'')
     | Some b \<Rightarrow>
        (case generatePasswordResetToken (email b) of
           Inl e \<Rightarrow>
             Responded \<lparr>statusCode = 200, success = True,
               message = ''If your email is registered, you will receive password reset instructions''\<rparr>
         | Inr result \<Rightarrow>
            (case createAuditLog ''system'' PASSWORD_RESET (orEmpty (ip req))
                    (orEmpty (userAgent req)) (email b) of
               Inl e \<Rightarrow>
                 Responded \<lparr>statusCode = 200, success = True,
                   message = ''If your email is registered, you will receive password reset instructions''\<rparr>
             | Inr _ \<Rightarrow>
                 Responded \<lparr>statusCode = 200, success = True,
                   message = ''Password reset instructions sent to your email''\<rparr>)))"

text \<open>
  Two runs of the auth service and one request, for running the handler: in the first
  the address belongs to an account and a token is generated, in the second the
  generation throws. The audit service succeeds in both.
\<close>

definition tokenForRegistered :: "string option \<Rightarrow> thrown + string" where
  "tokenForRegistered e = Inr ''reset-token''"

definition tokenForUnregistered :: "string option \<Rightarrow> thrown + string" where
  "tokenForUnregistered e = Inl (Error ''User not found'')"

definition auditLogged ::
  "string \<Rightarrow> AuditActionType \<Rightarrow> string \<Rightarrow> string \<Rightarrow> string option \<Rightarrow> thrown + unit" where
  "auditLogged userId action addr agent details = Inr ()"

definition resetRequest :: Request where
  "resetRequest =
    \<lparr>body = Some \<lparr>email = Some ''voter@example.org''\<rparr>, ip = Some ''10.0.0.1'',
     userAgent = None\<rparr>"

section \<open>Threshold secret sharing\<close>

text \<open>The error kinds of the cryptographic core.\<close>

datatype error =
  InvalidParameters | InsufficientShares | InvalidShare | KeyNotFound | KeyMismatch
  | IntegrityViolation | SignatureInvalid

text \<open>
  Modelled from the spec: the key share that the secret sharing engine hands out, one
  pair \<open>(x, f(x))\<close>; the engine's code is not among the sources. The election and the
  custodian of a share are attached by the key service and play no part in the
  arithmetic.
\<close>

record KeyShare =
  shareIndex :: nat
  shareValue :: int

text \<open>
  Modelled from the spec: the evaluation of the sharing polynomial, part of the engine
  whose code is not among the sources. The value of the polynomial with coefficients
  \<open>cs\<close> (constant term first) at \<open>x\<close>, in the field mod \<open>p\<close>.
\<close>

fun evalPoly :: "int \<Rightarrow> int list \<Rightarrow> int \<Rightarrow> int" where
  "evalPoly p [] x = 0"
| "evalPoly p (c # cs) x = (c + x * evalPoly p cs x) mod p"

text \<open>
  Modelled from the spec: \<open>split\<close> of the secret sharing engine (its code is not among
  the sources). A polynomial of degree \<open>T - 1\<close> over the field mod \<open>p\<close> with the secret
  as constant term and random higher coefficients, evaluated at \<open>1..N\<close>; it fails with
  \<open>InvalidParameters\<close> if \<open>T > N\<close> or \<open>T < 1\<close>. The random source is the sequence
  \<open>rand\<close> of its draws.
\<close>

definition split ::
  "int \<Rightarrow> nat \<Rightarrow> nat \<Rightarrow> int \<Rightarrow> (nat \<Rightarrow> int) \<Rightarrow> error + KeyShare list" where
  "split secret T N p rand =
    (if T > N \<or> T < 1 then Inl InvalidParameters
     else (let coefficients = secret # map (\<lambda>i. rand i mod p) [1..<T]
           in Inr (map (\<lambda>x. \<lparr>shareIndex = x, shareValue = evalPoly p coefficients (int x)\<rparr>)
                     [1..<Suc N])))"

text \<open>
  Modelled from the spec: division in the field mod \<open>p\<close>, which the engine's
  interpolation needs (its code is not among the sources). The inverse of \<open>a\<close> is the
  element \<open>b\<close> of \<open>1..p-1\<close> with \<open>a * b = 1\<close>.
\<close>

definition fieldInverse :: "int \<Rightarrow> int \<Rightarrow> int" where
  "fieldInverse p a =
    (case find (\<lambda>b. (a * b) mod p = 1) (map int [1..<nat p]) of Some b \<Rightarrow> b | None \<Rightarrow> 0)"

text \<open>
  Modelled from the spec: Lagrange interpolation at \<open>x = 0\<close> over the field, the
  computation inside the engine's \<open>reconstruct\<close> (its code is not among the sources).
  The basis polynomial of the point \<open>xj\<close> at 0 is the
  product of \<open>xm / (xm - xj)\<close> over the other points, and the interpolated value is the sum
  of \<open>yj\<close> times the basis value.
\<close>

definition lagrangeBasisAtZero :: "int \<Rightarrow> int list \<Rightarrow> int \<Rightarrow> int" where
  "lagrangeBasisAtZero p xs xj =
    prod_list (map (\<lambda>xm. (xm * fieldInverse p (xm - xj)) mod p) (filter (\<lambda>xm. xm \<noteq> xj) xs))
      mod p"

definition interpolateAtZero :: "int \<Rightarrow> (int \<times> int) list \<Rightarrow> int" where
  "interpolateAtZero p points =
    sum_list (map (\<lambda>(xj, yj). (yj * lagrangeBasisAtZero p (map fst points) xj) mod p) points)
      mod p"

text \<open>
  Modelled from the spec: \<open>reconstruct\<close> of the secret sharing engine (its code is not
  among the sources). It requires at least \<open>T\<close> shares, the configured threshold, checks
  the count before interpolating and fails with \<open>InsufficientShares\<close> below it;
  otherwise it interpolates at 0 over the shares it was given.
\<close>

definition reconstruct :: "nat \<Rightarrow> KeyShare list \<Rightarrow> int \<Rightarrow> error + int" where
  "reconstruct T shares p =
    (if length shares < T then Inl InsufficientShares
     else Inr (interpolateAtZero p (map (\<lambda>s. (int (shareIndex s), shareValue s)) shares)))"

text \<open>
  The field prime of the spec: \<open>p\<close> is a prime when no number from 2 to \<open>p - 1\<close>
  divides it.
\<close>

definition isPrime :: "int \<Rightarrow> bool" where
  "isPrime p = (1 < p \<and> list_all (\<lambda>d. \<not> int d dvd p) [2..<nat p])"

text \<open>
  Notions for the proof. \<open>horner\<close> is a polynomial over any ring, \<open>lbasis\<close> the Lagrange
  basis polynomial over a field, and \<open>rep p r k\<close> says that the residue \<open>k\<close> mod \<open>p\<close>
  stands for the rational number \<open>r\<close>: \<open>r\<close> is a fraction whose denominator is
  invertible mod \<open>p\<close>, and \<open>k\<close> is numerator times inverse denominator.
\<close>

fun horner :: "'a::comm_ring_1 list \<Rightarrow> 'a \<Rightarrow> 'a" where
  "horner [] x = 0"
| "horner (c # cs) x = c + x * horner cs x"

definition lbasis :: "'a::field set \<Rightarrow> 'a \<Rightarrow> 'a \<Rightarrow> 'a" where
  "lbasis S j z = (\<Prod>m \<in> S - {j}. (z - m) / (j - m))"

definition rep :: "int \<Rightarrow> rat \<Rightarrow> int \<Rightarrow> bool" where
  "rep p r k = (\<exists>a d. r = of_int a / of_int d \<and> coprime d p \<and> p dvd (d * k - a))"

section \<open>Properties of the middleware\<close>

lemma map_of_rev_distinct: "distinct (map fst xs) \<Longrightarrow> map_of (rev xs) = map_of xs"
proof (induction xs)
  case Nil
  then show ?case by simp
next
  case (Cons kv xs)
  obtain k v where kv: "kv = (k, v)" by (cases kv)
  from Cons.prems kv have k: "k \<notin> fst ` set xs" and d: "distinct (map fst xs)" by auto
  from k have "map_of xs k = None" by (simp add: map_of_eq_None_iff)
  then show ?case using Cons.IH [OF d] kv
    by (auto simp: map_add_def fun_eq_iff split: option.splits)
qed

lemma roleHierarchy_distinct: "distinct (map fst roleHierarchy)"
  by (simp add: roleHierarchy_def)

lemma jsGet_roleHierarchy:
  "ordinaryName a \<Longrightarrow> orZero (jsGet roleHierarchy a) = JNum (hierarchyValue a)"
  by (simp add: jsGet_def orZero_def hierarchyValue_def ordinaryName_def
      map_of_rev_distinct [OF roleHierarchy_distinct] split: option.splits)

lemma hasEqualOrHigherRole_ordinary:
  "ordinaryName a \<Longrightarrow> ordinaryName b \<Longrightarrow>
     hasEqualOrHigherRole a b = (hierarchyValue b \<le> hierarchyValue a)"
  by (simp add: hasEqualOrHigherRole_def jsGet_roleHierarchy)

lemma hierarchyValue_le: "hierarchyValue r \<le> 100"
  by (simp add: hierarchyValue_def roleHierarchy_def)

lemma hierarchyValue_admin: "hierarchyValue ''SystemAdministrator'' = 100"
  by (simp add: hierarchyValue_def roleHierarchy_def)

lemma hierarchyValue_absent: "map_of roleHierarchy r = None \<Longrightarrow> hierarchyValue r = 0"
  by (simp add: hierarchyValue_def)

text \<open>The twelve role names of the hierarchy are ordinary names.\<close>

lemma roleHierarchy_names_ordinary: "list_all ordinaryName (map fst roleHierarchy)"
  by (simp add: roleHierarchy_def ordinaryName_def objectPrototype_def)

text \<open>
  Claim C8, as stated, fails for a name that resolves to an inherited member. The table
  lists neither \<^verbatim>\<open>constructor\<close> nor \<^verbatim>\<open>Unknown\<close>, so both have hierarchy value 0
  and the claim grants access to a user with role \<^verbatim>\<open>constructor\<close> against the list
  \<^verbatim>\<open>['Unknown']\<close>; the code refuses, because \<^verbatim>\<open>roleHierarchy['constructor']\<close> is
  an inherited function and its comparison with the number 0 is false. Likewise the
  claim lets a \<^verbatim>\<open>SystemAdministrator\<close> pass every non-empty list, and the code refuses
  the administrator against the list \<^verbatim>\<open>['hasOwnProperty']\<close>.
\<close>

theorem requireRole_hierarchy_counterexample:
  "map_of roleHierarchy ''constructor'' = None
   \<and> map_of roleHierarchy ''Unknown'' = None
   \<and> hierarchyValue ''Unknown'' \<le> hierarchyValue ''constructor''
   \<and> requireRole (Many [''Unknown''])
        \<lparr>user = Some \<lparr>adminType = Some ''constructor'', permissions = None\<rparr>\<rparr>
      = NextError (ApiError 403 ''Insufficient permissions'' ''INSUFFICIENT_PERMISSIONS'')
   \<and> hierarchyValue ''hasOwnProperty'' \<le> hierarchyValue ''SystemAdministrator''
   \<and> requireRole (Many [''hasOwnProperty''])
        \<lparr>user = Some \<lparr>adminType = Some ''SystemAdministrator'', permissions = None\<rparr>\<rparr>
      = NextError (ApiError 403 ''Insufficient permissions'' ''INSUFFICIENT_PERMISSIONS'')"
  by (simp add: requireRole_def noRole_def hasEqualOrHigherRole_def jsGet_def orZero_def
      hierarchyValue_def roleHierarchy_def objectPrototype_def)

text \<open>
  Claim C8, amended. For a user with an assigned role and an array of required roles,
  where neither the user's role nor a listed role is the name of a member that an
  object literal inherits from \<^verbatim>\<open>Object.prototype\<close>, \<open>requireRole\<close> calls
  \<^verbatim>\<open>next()\<close> exactly when the hierarchy value of the user's role (0 for a role the
  table does not list) is at least the hierarchy value of one of the listed roles. The
  user's role need not be in the list: a \<^verbatim>\<open>SystemAdministrator\<close> (value 100) passes
  every non-empty list, and a user whose role the table does not list passes against
  any listed role that the table does not list either.
\<close>

theorem requireRole_hierarchy:
  assumes "user req = Some u" and "adminType u = Some userRole" and "userRole \<noteq> []"
    and "ordinaryName userRole" and "list_all ordinaryName roles"
  shows "(requireRole (Many roles) req = Next \<longleftrightarrow>
            (\<exists>role \<in> set roles. hierarchyValue role \<le> hierarchyValue userRole))
       \<and> (roles \<noteq> [] \<and> userRole = ''SystemAdministrator'' \<longrightarrow>
            requireRole (Many roles) req = Next)
       \<and> (map_of roleHierarchy userRole = None
            \<and> (\<exists>role \<in> set roles. map_of roleHierarchy role = None) \<longrightarrow>
            requireRole (Many roles) req = Next)"
proof -
  have ex: "list_ex (hasEqualOrHigherRole userRole) roles
      = (\<exists>role \<in> set roles. hierarchyValue role \<le> hierarchyValue userRole)"
    using assms(4,5) by (auto simp: list_ex_iff list_all_iff hasEqualOrHigherRole_ordinary)
  have main: "requireRole (Many roles) req = Next \<longleftrightarrow>
      (\<exists>role \<in> set roles. hierarchyValue role \<le> hierarchyValue userRole)"
    using assms(1-3) ex by (simp add: requireRole_def noRole_def)
  have admin: "requireRole (Many roles) req = Next"
    if "roles \<noteq> []" "userRole = ''SystemAdministrator''"
  proof -
    from that(1) obtain r where "r \<in> set roles" by (cases roles) auto
    moreover have "hierarchyValue r \<le> hierarchyValue userRole"
      using that(2) hierarchyValue_le [of r] by (simp add: hierarchyValue_admin)
    ultimately show ?thesis using main by blast
  qed
  have absent: "requireRole (Many roles) req = Next"
    if "map_of roleHierarchy userRole = None"
      "\<exists>role \<in> set roles. map_of roleHierarchy role = None"
  proof -
    from that(2) obtain r where r: "r \<in> set roles" "map_of roleHierarchy r = None" by blast
    then have "hierarchyValue r \<le> hierarchyValue userRole"
      by (simp add: hierarchyValue_absent)
    with r(1) show ?thesis using main by blast
  qed
  show ?thesis using main admin absent by blast
qed

text \<open>
  The theorem at four requests: an election manager against a list with a lower role
  (granted) and against the administrator alone (refused), an administrator against a
  list of lower roles, and a role the table does not list against another such role.
\<close>

theorem requireRole_hierarchy_witness:
  "requireRole (Many [''SystemAdministrator'', ''PollingUnitOfficer''])
      \<lparr>user = Some \<lparr>adminType = Some ''ElectionManager'', permissions = None\<rparr>\<rparr> = Next
   \<and> requireRole (Many [''SystemAdministrator''])
      \<lparr>user = Some \<lparr>adminType = Some ''ElectionManager'', permissions = None\<rparr>\<rparr> \<noteq> Next
   \<and> requireRole (Many [''Voter'', ''Observer''])
      \<lparr>user = Some \<lparr>adminType = Some ''SystemAdministrator'', permissions = None\<rparr>\<rparr> = Next
   \<and> requireRole (Many [''Contractor''])
      \<lparr>user = Some \<lparr>adminType = Some ''Intern'', permissions = None\<rparr>\<rparr> = Next"
  using
    requireRole_hierarchy
      [of "\<lparr>user = Some \<lparr>adminType = Some ''ElectionManager'', permissions = None\<rparr>\<rparr>"
        "\<lparr>adminType = Some ''ElectionManager'', permissions = None\<rparr>" "''ElectionManager''"
        "[''SystemAdministrator'', ''PollingUnitOfficer'']"]
    requireRole_hierarchy
      [of "\<lparr>user = Some \<lparr>adminType = Some ''ElectionManager'', permissions = None\<rparr>\<rparr>"
        "\<lparr>adminType = Some ''ElectionManager'', permissions = None\<rparr>" "''ElectionManager''"
        "[''SystemAdministrator'']"]
    requireRole_hierarchy
      [of "\<lparr>user = Some \<lparr>adminType = Some ''SystemAdministrator'', permissions = None\<rparr>\<rparr>"
        "\<lparr>adminType = Some ''SystemAdministrator'', permissions = None\<rparr>"
        "''SystemAdministrator''" "[''Voter'', ''Observer'']"]
    requireRole_hierarchy
      [of "\<lparr>user = Some \<lparr>adminType = Some ''Intern'', permissions = None\<rparr>\<rparr>"
        "\<lparr>adminType = Some ''Intern'', permissions = None\<rparr>" "''Intern''"
        "[''Contractor'']"]
  by (simp add: ordinaryName_def objectPrototype_def hierarchyValue_def roleHierarchy_def)

lemma roleHasPermission_Inr:
  "roleHasPermission roleStr permStr r p = Inr b \<Longrightarrow>
     b = (p \<in> set (roleDefaults roleStr permStr r))"
  by (auto simp: roleHasPermission_def roleDefaults_def jsGet_def
      split: option.splits js_property.splits)

lemma roleHasPermission_Inl:
  "roleHasPermission roleStr permStr r p = Inl e \<Longrightarrow> roleDefaults roleStr permStr r = []"
  by (auto simp: roleHasPermission_def roleDefaults_def jsGet_def
      split: option.splits js_property.splits)

lemma everyPermission_True_iff:
  "everyPermission roleStr permStr ups r ps = Inr True \<longleftrightarrow>
     (\<forall>p \<in> set ps. p \<in> set ups \<or> p \<in> set (roleDefaults roleStr permStr r))"
proof (induction ps)
  case Nil
  then show ?case by simp
next
  case (Cons p ps)
  show ?case
  proof (cases "p \<in> set ups")
    case True
    then show ?thesis using Cons.IH by simp
  next
    case False
    show ?thesis
    proof (cases "roleHasPermission roleStr permStr r p")
      case (Inl e)
      from roleHasPermission_Inl [OF Inl] False Inl show ?thesis by simp
    next
      case (Inr b)
      from roleHasPermission_Inr [OF Inr] False Inr Cons.IH show ?thesis
        by (cases b) simp_all
    qed
  qed
qed

lemma userPermissionNames_explicit: "set (userPermissionNames u) = explicitPermissions u"
  by (simp add: userPermissionNames_def explicitPermissions_def split: option.splits)

text \<open>
  Claim C9. Without \<^verbatim>\<open>req.user\<close>, \<open>requirePermission\<close> fails with the 401 error
  \<^verbatim>\<open>AUTHENTICATION_REQUIRED\<close>; for a user whose role is missing or empty it fails with
  the 403 error \<^verbatim>\<open>ROLE_REQUIRED\<close>; for a user with a role it calls \<^verbatim>\<open>next()\<close>
  exactly when every required permission is among the user's explicit permissions or
  among the default permissions of the user's role, where the required permissions are
  the elements of the array, or the one permission given in place of an array. This
  holds whatever strings the enum members stand for.
\<close>

theorem requirePermission_access:
  "(user req = None \<longrightarrow>
      requirePermission roleStr permStr required req
        = NextError (ApiError 401 ''User not authenticated'' ''AUTHENTICATION_REQUIRED''))
   \<and> (\<forall>u. user req = Some u \<and> (adminType u = None \<or> adminType u = Some []) \<longrightarrow>
      requirePermission roleStr permStr required req
        = NextError (ApiError 403 ''User has no assigned role'' ''ROLE_REQUIRED''))
   \<and> (\<forall>u r ps. user req = Some u \<and> adminType u = Some r \<and> r \<noteq> [] \<and> required = Many ps \<longrightarrow>
      (requirePermission roleStr permStr required req = Next \<longleftrightarrow>
        (\<forall>p \<in> set ps.
            p \<in> explicitPermissions u \<or> p \<in> set (roleDefaults roleStr permStr r))))
   \<and> (\<forall>u r p. user req = Some u \<and> adminType u = Some r \<and> r \<noteq> [] \<and> required = One p \<longrightarrow>
      (requirePermission roleStr permStr required req = Next \<longleftrightarrow>
        (p \<in> explicitPermissions u \<or> p \<in> set (roleDefaults roleStr permStr r))))"
proof (intro conjI allI impI)
  assume "user req = None"
  then show "requirePermission roleStr permStr required req
        = NextError (ApiError 401 ''User not authenticated'' ''AUTHENTICATION_REQUIRED'')"
    by (simp add: requirePermission_def)
next
  fix u assume "user req = Some u \<and> (adminType u = None \<or> adminType u = Some [])"
  then show "requirePermission roleStr permStr required req
        = NextError (ApiError 403 ''User has no assigned role'' ''ROLE_REQUIRED'')"
    by (auto simp: requirePermission_def noRole_def)
next
  fix u r ps
  assume a: "user req = Some u \<and> adminType u = Some r \<and> r \<noteq> [] \<and> required = Many ps"
  then have "requirePermission roleStr permStr required req = Next \<longleftrightarrow>
      everyPermission roleStr permStr (userPermissionNames u) r ps = Inr True"
    by (auto simp: requirePermission_def noRole_def toArray_def Let_def split: sum.splits)
  then show "requirePermission roleStr permStr required req = Next \<longleftrightarrow>
        (\<forall>p \<in> set ps.
            p \<in> explicitPermissions u \<or> p \<in> set (roleDefaults roleStr permStr r))"
    by (simp add: everyPermission_True_iff userPermissionNames_explicit)
next
  fix u r p
  assume a: "user req = Some u \<and> adminType u = Some r \<and> r \<noteq> [] \<and> required = One p"
  then have "requirePermission roleStr permStr required req = Next \<longleftrightarrow>
      everyPermission roleStr permStr (userPermissionNames u) r [p] = Inr True"
    by (auto simp: requirePermission_def noRole_def toArray_def Let_def split: sum.splits)
  also have "\<dots> \<longleftrightarrow>
      (\<forall>q \<in> set [p]. q \<in> explicitPermissions u \<or> q \<in> set (roleDefaults roleStr permStr r))"
    by (simp only: everyPermission_True_iff userPermissionNames_explicit)
  finally show "requirePermission roleStr permStr required req = Next \<longleftrightarrow>
        (p \<in> explicitPermissions u \<or> p \<in> set (roleDefaults roleStr permStr r))"
    by simp
qed

text \<open>
  The same check run with the sample strings. With an array of two required
  permissions: no user; a user without a role; a user whose role is the empty string; a
  voter who holds one of the two and gets the other from the role; a voter who holds
  neither of her own. With a single required permission: a voter who gets it from the
  role, a voter whose role does not give it, and a voter who holds it herself.
\<close>

lemma sample_roleDefaults:
  "roleDefaults sampleRoleStr samplePermStr ''Voter'' = [''view_elections'', ''cast_vote'']"
  by (simp add: roleDefaults_def rolePermissions_def rolePermissionEntries_def
      sampleRoleStr_def samplePermStr_def)

theorem requirePermission_access_witness:
  "requirePermission sampleRoleStr samplePermStr (Many [''cast_vote'', ''view_results''])
      \<lparr>user = None\<rparr>
     = NextError (ApiError 401 ''User not authenticated'' ''AUTHENTICATION_REQUIRED'')
   \<and> requirePermission sampleRoleStr samplePermStr (Many [''cast_vote'', ''view_results''])
      \<lparr>user = Some \<lparr>adminType = None, permissions = None\<rparr>\<rparr>
     = NextError (ApiError 403 ''User has no assigned role'' ''ROLE_REQUIRED'')
   \<and> requirePermission sampleRoleStr samplePermStr (Many [''cast_vote'', ''view_results''])
      \<lparr>user = Some \<lparr>adminType = Some [], permissions = None\<rparr>\<rparr>
     = NextError (ApiError 403 ''User has no assigned role'' ''ROLE_REQUIRED'')
   \<and> requirePermission sampleRoleStr samplePermStr (Many [''cast_vote'', ''view_results''])
      \<lparr>user = Some \<lparr>adminType = Some ''Voter'',
                     permissions = Some [\<lparr>permissionName = ''view_results''\<rparr>]\<rparr>\<rparr>
     = Next
   \<and> requirePermission sampleRoleStr samplePermStr (Many [''cast_vote'', ''view_results''])
      \<lparr>user = Some \<lparr>adminType = Some ''Voter'', permissions = None\<rparr>\<rparr>
     \<noteq> Next
   \<and> requirePermission sampleRoleStr samplePermStr (One ''cast_vote'')
      \<lparr>user = Some \<lparr>adminType = Some ''Voter'', permissions = None\<rparr>\<rparr>
     = Next
   \<and> requirePermission sampleRoleStr samplePermStr (One ''view_results'')
      \<lparr>user = Some \<lparr>adminType = Some ''Voter'', permissions = None\<rparr>\<rparr>
     \<noteq> Next
   \<and> requirePermission sampleRoleStr samplePermStr (One ''view_results'')
      \<lparr>user = Some \<lparr>adminType = Some ''Voter'',
                     permissions = Some [\<lparr>permissionName = ''view_results''\<rparr>]\<rparr>\<rparr>
     = Next"
  using
    requirePermission_access
      [of "\<lparr>user = None\<rparr>" sampleRoleStr samplePermStr
        "Many [''cast_vote'', ''view_results'']"]
    requirePermission_access
      [of "\<lparr>user = Some \<lparr>adminType = None, permissions = None\<rparr>\<rparr>"
        sampleRoleStr samplePermStr "Many [''cast_vote'', ''view_results'']"]
    requirePermission_access
      [of "\<lparr>user = Some \<lparr>adminType = Some [], permissions = None\<rparr>\<rparr>"
        sampleRoleStr samplePermStr "Many [''cast_vote'', ''view_results'']"]
    requirePermission_access
      [of "\<lparr>user = Some \<lparr>adminType = Some ''Voter'',
                     permissions = Some [\<lparr>permissionName = ''view_results''\<rparr>]\<rparr>\<rparr>"
        sampleRoleStr samplePermStr "Many [''cast_vote'', ''view_results'']"]
    requirePermission_access
      [of "\<lparr>user = Some \<lparr>adminType = Some ''Voter'', permissions = None\<rparr>\<rparr>"
        sampleRoleStr samplePermStr "Many [''cast_vote'', ''view_results'']"]
    requirePermission_access
      [of "\<lparr>user = Some \<lparr>adminType = Some ''Voter'', permissions = None\<rparr>\<rparr>"
        sampleRoleStr samplePermStr "One ''cast_vote''"]
    requirePermission_access
      [of "\<lparr>user = Some \<lparr>adminType = Some ''Voter'', permissions = None\<rparr>\<rparr>"
        sampleRoleStr samplePermStr "One ''view_results''"]
    requirePermission_access
      [of "\<lparr>user = Some \<lparr>adminType = Some ''Voter'',
                     permissions = Some [\<lparr>permissionName = ''view_results''\<rparr>]\<rparr>\<rparr>"
        sampleRoleStr samplePermStr "One ''view_results''"]
  by (simp add: explicitPermissions_def sample_roleDefaults)

section \<open>Properties of the password reset request\<close>

text \<open>
  Whenever the request has a body, the handler answers with status 200 and
  \<^verbatim>\<open>success: true\<close>, whatever the token generation and the audit log do.
\<close>

lemma forgotPassword_status_success:
  "body req = Some b \<Longrightarrow>
     \<exists>m. forgotPassword generatePasswordResetToken createAuditLog req
       = Responded \<lparr>statusCode = 200, success = True, message = m\<rparr>"
  by (simp add: forgotPassword_def split: sum.splits)

text \<open>
  Claim C10. Two requests for the same address, one where the token generation returns
  a token (a registered account) and one where it throws: both are answered with status
  200 and \<^verbatim>\<open>success: true\<close>, but the messages differ, so the two responses are not
  the same and the body tells a registered address from an unregistered one.
\<close>

theorem forgotPassword_message_differs:
  "forgotPassword tokenForRegistered auditLogged resetRequest
     = Responded \<lparr>statusCode = 200, success = True,
         message = ''Password reset instructions sent to your email''\<rparr>
   \<and> forgotPassword tokenForUnregistered auditLogged resetRequest
     = Responded \<lparr>statusCode = 200, success = True,
         message = ''If your email is registered, you will receive password reset instructions''\<rparr>
   \<and> forgotPassword tokenForRegistered auditLogged resetRequest
     \<noteq> forgotPassword tokenForUnregistered auditLogged resetRequest"
  by (simp add: forgotPassword_def tokenForRegistered_def tokenForUnregistered_def
      auditLogged_def resetRequest_def)

section \<open>Properties of the secret sharing\<close>

subsection \<open>Lagrange interpolation over a field\<close>

text \<open>
  The basis polynomials of a non-empty set of points sum to 1, and interpolating a
  polynomial with at most as many coefficients as there are points gives the polynomial
  back, at every argument.
\<close>

lemma lbasis_insert_other:
  assumes "finite F" "x0 \<notin> F" "j \<in> F"
  shows "lbasis (insert x0 F) j z = (z - x0) / (j - x0) * lbasis F j z"
proof -
  have "insert x0 F - {j} = insert x0 (F - {j})" using assms by auto
  moreover have "x0 \<notin> F - {j}" using assms by auto
  ultimately show ?thesis using assms by (simp add: lbasis_def)
qed

lemma lbasis_insert_self:
  assumes "x0 \<notin> F"
  shows "lbasis (insert x0 F) x0 z = (\<Prod>m \<in> F. (z - m) / (x0 - m))"
  using assms by (simp add: lbasis_def)

lemma lbasis_shift:
  assumes "finite F" "x0 \<notin> F" "j \<in> F"
  shows "(z - j) / (x0 - j) * lbasis F j z
       = (\<Prod>m \<in> F. (z - m) / (x0 - m)) * lbasis F j x0"
proof -
  let ?G = "F - {j}"
  have split: "(\<Prod>m \<in> F. (z - m) / (x0 - m))
      = (z - j) / (x0 - j) * (\<Prod>m \<in> ?G. (z - m) / (x0 - m))"
    using assms(1,3) by (rule prod.remove)
  have "(\<Prod>m \<in> ?G. (z - m) / (x0 - m)) * (\<Prod>m \<in> ?G. (x0 - m) / (j - m))
      = (\<Prod>m \<in> ?G. ((z - m) / (x0 - m)) * ((x0 - m) / (j - m)))"
    by (rule prod.distrib [symmetric])
  also have "\<dots> = (\<Prod>m \<in> ?G. (z - m) / (j - m))"
  proof (rule prod.cong)
    fix m assume "m \<in> ?G"
    then have "x0 - m \<noteq> 0" using assms(2) by auto
    then show "((z - m) / (x0 - m)) * ((x0 - m) / (j - m)) = (z - m) / (j - m)" by simp
  qed simp
  finally have "(\<Prod>m \<in> ?G. (z - m) / (x0 - m)) * lbasis F j x0 = lbasis F j z"
    by (simp only: lbasis_def)
  then have "(z - j) / (x0 - j) * lbasis F j z
      = (z - j) / (x0 - j) * ((\<Prod>m \<in> ?G. (z - m) / (x0 - m)) * lbasis F j x0)"
    by simp
  also have "\<dots> = (\<Prod>m \<in> F. (z - m) / (x0 - m)) * lbasis F j x0"
    by (simp only: split mult.assoc)
  finally show ?thesis .
qed

lemma lagrange_unity:
  assumes "finite S" "S \<noteq> {}"
  shows "(\<Sum>j \<in> S. lbasis S j z) = (1::'a::field)"
  using assms
proof (induction S arbitrary: z rule: finite_ne_induct)
  case (singleton x)
  then show ?case by (simp add: lbasis_def)
next
  case (insert x0 F)
  define W where "W = (\<Prod>m \<in> F. (z - m) / (x0 - m))"
  have step: "lbasis (insert x0 F) j z = lbasis F j z - W * lbasis F j x0" if "j \<in> F" for j
  proof -
    from that insert.hyps have ne: "x0 - j \<noteq> 0" "j - x0 \<noteq> 0" by auto
    have eq: "(z - x0) / (j - x0) = 1 - (z - j) / (x0 - j)"
      using ne by (simp add: field_simps)
    have "lbasis (insert x0 F) j z = (z - x0) / (j - x0) * lbasis F j z"
      by (rule lbasis_insert_other [OF insert.hyps(1) insert.hyps(3) that])
    also have "\<dots> = (1 - (z - j) / (x0 - j)) * lbasis F j z"
      by (simp only: eq)
    also have "\<dots> = lbasis F j z - (z - j) / (x0 - j) * lbasis F j z"
      by (simp only: left_diff_distrib mult_1_left)
    also have "(z - j) / (x0 - j) * lbasis F j z = W * lbasis F j x0"
      unfolding W_def by (rule lbasis_shift [OF insert.hyps(1) insert.hyps(3) that])
    finally show ?thesis .
  qed
  have "(\<Sum>j \<in> insert x0 F. lbasis (insert x0 F) j z)
      = lbasis (insert x0 F) x0 z + (\<Sum>j \<in> F. lbasis (insert x0 F) j z)"
    using insert.hyps by simp
  also have "(\<Sum>j \<in> F. lbasis (insert x0 F) j z) = (\<Sum>j \<in> F. lbasis F j z - W * lbasis F j x0)"
    by (rule sum.cong) (simp_all add: step)
  also have "\<dots> = (\<Sum>j \<in> F. lbasis F j z) - W * (\<Sum>j \<in> F. lbasis F j x0)"
    by (simp add: sum_subtractf sum_distrib_left)
  also have "\<dots> = 1 - W" by (simp add: insert.IH)
  also have "lbasis (insert x0 F) x0 z = W"
    unfolding W_def by (rule lbasis_insert_self [OF insert.hyps(3)])
  finally show ?case by simp
qed

lemma horner_divide:
  "\<exists>q. length q = length cs \<and> (\<forall>x. horner (c # cs) x = horner (c # cs) x0 + (x - x0) * horner q x)"
proof (induction cs arbitrary: c)
  case Nil
  show ?case by (rule exI [of _ "[]"]) simp
next
  case (Cons c' cs)
  define H where "H = horner (c' # cs)"
  from Cons [of c'] obtain q where q: "length q = length cs"
    "\<And>x. H x = H x0 + (x - x0) * horner q x" unfolding H_def by blast
  have H: "\<And>x. horner (c # c' # cs) x = c + x * H x" by (simp add: H_def)
  show ?case
  proof (rule exI [of _ "H x0 # q"], intro conjI allI)
    show "length (H x0 # q) = length (c' # cs)" using q(1) by simp
  next
    fix x
    have "c + x * H x = c + x * (H x0 + (x - x0) * horner q x)"
      using q(2) [of x] by simp
    also have "\<dots> = (c + x0 * H x0) + (x - x0) * (H x0 + x * horner q x)"
      by (simp add: algebra_simps)
    finally have E: "c + x * H x = (c + x0 * H x0) + (x - x0) * (H x0 + x * horner q x)" .
    have a: "horner (H x0 # q) x = H x0 + x * horner q x" by simp
    show "horner (c # c' # cs) x
        = horner (c # c' # cs) x0 + (x - x0) * horner (H x0 # q) x"
      by (simp only: H a E)
  qed
qed

lemma lagrange_interpolation:
  assumes "finite S" "length cs \<le> card S"
  shows "(\<Sum>j \<in> S. horner cs j * lbasis S j z) = horner cs (z::'a::field)"
  using assms
proof (induction S arbitrary: cs rule: finite_induct)
  case empty
  then show ?case by simp
next
  case (insert x0 F)
  show ?case
  proof (cases cs)
    case Nil
    then show ?thesis by simp
  next
    case (Cons c cs')
    define f where "f = horner cs"
    define S where "S = insert x0 F"
    from horner_divide [of cs' c x0] obtain q where q: "length q = length cs'"
      "\<And>x. f x = f x0 + (x - x0) * horner q x" unfolding f_def Cons by blast
    define g where "g = horner q"
    have lq: "length q \<le> card F" using insert.prems insert.hyps Cons q(1) by simp
    have S: "finite S" "S \<noteq> {}" using insert.hyps by (auto simp: S_def)
    have "(\<Sum>j \<in> S. f j * lbasis S j z)
        = (\<Sum>j \<in> S. f x0 * lbasis S j z + (j - x0) * g j * lbasis S j z)"
    proof (rule sum.cong)
      fix j
      have "f j * lbasis S j z = (f x0 + (j - x0) * g j) * lbasis S j z"
        using q(2) [of j] by (simp add: g_def)
      then show "f j * lbasis S j z = f x0 * lbasis S j z + (j - x0) * g j * lbasis S j z"
        by (simp add: algebra_simps)
    qed simp
    also have "\<dots> = f x0 * (\<Sum>j \<in> S. lbasis S j z) + (\<Sum>j \<in> S. (j - x0) * g j * lbasis S j z)"
      by (simp add: sum.distrib sum_distrib_left)
    also have "(\<Sum>j \<in> S. lbasis S j z) = 1" by (rule lagrange_unity [OF S])
    also have "(\<Sum>j \<in> S. (j - x0) * g j * lbasis S j z)
        = (\<Sum>j \<in> F. (j - x0) * g j * lbasis S j z)"
      using insert.hyps by (simp add: S_def)
    also have "\<dots> = (\<Sum>j \<in> F. (z - x0) * (g j * lbasis F j z))"
    proof (rule sum.cong)
      fix j assume j: "j \<in> F"
      then have "j - x0 \<noteq> 0" using insert.hyps by auto
      then show "(j - x0) * g j * lbasis S j z = (z - x0) * (g j * lbasis F j z)"
        using lbasis_insert_other [OF insert.hyps(1) insert.hyps(2) j, of z]
        by (simp add: S_def)
    qed simp
    also have "\<dots> = (z - x0) * (\<Sum>j \<in> F. g j * lbasis F j z)"
      by (simp only: sum_distrib_left)
    also have "(\<Sum>j \<in> F. g j * lbasis F j z) = g z"
      unfolding g_def by (rule insert.IH [OF lq])
    finally have "(\<Sum>j \<in> S. f j * lbasis S j z) = f x0 + (z - x0) * g z" by simp
    also have "\<dots> = f z" using q(2) [of z] by (simp add: g_def)
    finally show ?thesis by (simp only: f_def S_def)
  qed
qed

subsection \<open>Inverses modulo a prime\<close>

lemma isPrime_coprime:
  assumes "isPrime p" "\<not> p dvd a"
  shows "coprime a p"
proof -
  from assms(1) have p: "1 < p" and nd: "\<And>d. 2 \<le> d \<Longrightarrow> d < nat p \<Longrightarrow> \<not> int d dvd p"
    by (auto simp: isPrime_def list_all_iff)
  define g where "g = gcd a p"
  have g0: "0 \<le> g" by (simp add: g_def)
  have gp: "g dvd p" and ga: "g dvd a" by (simp_all add: g_def)
  have "g \<noteq> 0" using p by (auto simp: g_def)
  have "g \<le> p" using gp p by (simp add: zdvd_imp_le)
  have "g \<noteq> p" using ga assms(2) by auto
  have "g = 1"
  proof (rule ccontr)
    assume "g \<noteq> 1"
    with g0 \<open>g \<noteq> 0\<close> have "2 \<le> g" by linarith
    with \<open>g \<le> p\<close> \<open>g \<noteq> p\<close> have "2 \<le> nat g" "nat g < nat p" by linarith+
    from nd [OF this] gp g0 show False by simp
  qed
  then show ?thesis by (simp add: g_def coprime_iff_gcd_eq_1)
qed

lemma fieldInverse_correct:
  assumes "isPrime p" "\<not> p dvd a"
  shows "(a * fieldInverse p a) mod p = 1"
proof -
  from assms(1) have p: "1 < p" by (simp add: isPrime_def)
  from isPrime_coprime [OF assms] have "gcd a p = 1" by (simp add: coprime_iff_gcd_eq_1)
  with bezout_int [of a p] obtain u v where uv: "u * a + v * p = 1" by auto
  define b where "b = u mod p"
  have "(a * b) mod p = (a * u) mod p" by (simp add: b_def mod_mult_right_eq)
  also have "a * u = 1 - v * p" using uv by (simp add: algebra_simps)
  also have "(1 - v * p) mod p = 1" using p by (simp add: mod_diff_right_eq [symmetric] )
  finally have ab: "(a * b) mod p = 1" .
  have "0 \<le> b" "b < p" using p by (simp_all add: b_def)
  moreover have "b \<noteq> 0" using ab p by auto
  ultimately have "b \<in> set (map int [1..<nat p])"
    by (auto simp: image_iff intro!: bexI [of _ "nat b"])
  with ab have "find (\<lambda>b. (a * b) mod p = 1) (map int [1..<nat p]) \<noteq> None"
    by (auto simp: find_None_iff)
  then obtain c where c: "find (\<lambda>b. (a * b) mod p = 1) (map int [1..<nat p]) = Some c" by auto
  then have "(a * c) mod p = 1" by (auto simp: find_Some_iff)
  with c show ?thesis by (simp add: fieldInverse_def)
qed


subsection \<open>Residues that stand for rational numbers\<close>

text \<open>
  \<open>rep p\<close> is compatible with sums, products and reduction mod \<open>p\<close>, a quotient is
  represented by numerator times field inverse, and an integer is represented only by
  residues congruent to it.
\<close>

lemma rep_of_int: "p dvd (k - a) \<Longrightarrow> rep p (of_int a) k"
  unfolding rep_def by (rule exI [of _ a], rule exI [of _ 1]) simp

lemma coprime_nonzero: "1 < p \<Longrightarrow> coprime d p \<Longrightarrow> d \<noteq> (0::int)"
  by auto

lemma rep_add:
  assumes "1 < p" "rep p r1 k1" "rep p r2 k2"
  shows "rep p (r1 + r2) (k1 + k2)"
proof -
  from assms(2) obtain a1 d1 where 1: "r1 = of_int a1 / of_int d1" "coprime d1 p"
    "p dvd (d1 * k1 - a1)" unfolding rep_def by blast
  from assms(3) obtain a2 d2 where 2: "r2 = of_int a2 / of_int d2" "coprime d2 p"
    "p dvd (d2 * k2 - a2)" unfolding rep_def by blast
  have nz: "d1 \<noteq> 0" "d2 \<noteq> 0" using 1(2) 2(2) assms(1) by (auto dest: coprime_nonzero)
  have r: "r1 + r2 = of_int (a1 * d2 + a2 * d1) / of_int (d1 * d2)"
    using nz by (simp add: 1(1) 2(1) field_simps)
  have c: "coprime (d1 * d2) p" using 1(2) 2(2) by simp
  have "d1 * d2 * (k1 + k2) - (a1 * d2 + a2 * d1)
      = d2 * (d1 * k1 - a1) + d1 * (d2 * k2 - a2)" by (simp add: algebra_simps)
  then have "p dvd (d1 * d2 * (k1 + k2) - (a1 * d2 + a2 * d1))"
    using 1(3) 2(3) by simp
  with r c show ?thesis unfolding rep_def by blast
qed

lemma rep_mult:
  assumes "1 < p" "rep p r1 k1" "rep p r2 k2"
  shows "rep p (r1 * r2) (k1 * k2)"
proof -
  from assms(2) obtain a1 d1 where 1: "r1 = of_int a1 / of_int d1" "coprime d1 p"
    "p dvd (d1 * k1 - a1)" unfolding rep_def by blast
  from assms(3) obtain a2 d2 where 2: "r2 = of_int a2 / of_int d2" "coprime d2 p"
    "p dvd (d2 * k2 - a2)" unfolding rep_def by blast
  have r: "r1 * r2 = of_int (a1 * a2) / of_int (d1 * d2)"
    by (simp add: 1(1) 2(1))
  have c: "coprime (d1 * d2) p" using 1(2) 2(2) by simp
  have "d1 * d2 * (k1 * k2) - a1 * a2
      = d2 * k2 * (d1 * k1 - a1) + a1 * (d2 * k2 - a2)" by (simp add: algebra_simps)
  then have "p dvd (d1 * d2 * (k1 * k2) - a1 * a2)"
    using 1(3) 2(3) by simp
  with r c show ?thesis unfolding rep_def by blast
qed

lemma rep_mod:
  assumes "rep p r k"
  shows "rep p r (k mod p)"
proof -
  from assms obtain a d where 1: "r = of_int a / of_int d" "coprime d p"
    "p dvd (d * k - a)" unfolding rep_def by blast
  have e: "d * (k mod p) - a = (d * k - a) - p * (d * (k div p))"
    by (simp add: algebra_simps minus_mod_eq_mult_div [symmetric])
  have "p dvd p * (d * (k div p))" by simp
  with 1(3) have "p dvd (d * k - a) - p * (d * (k div p))" by (rule dvd_diff)
  then have "p dvd (d * (k mod p) - a)" by (simp only: e)
  with 1 show ?thesis unfolding rep_def by blast
qed

lemma rep_quotient:
  assumes "isPrime p" "\<not> p dvd d"
  shows "rep p (of_int a / of_int d) (a * fieldInverse p d)"
proof -
  have c: "coprime d p" by (rule isPrime_coprime [OF assms])
  from fieldInverse_correct [OF assms] have "(d * fieldInverse p d - 1) mod p = 0"
    using assms(1) by (simp add: mod_diff_left_eq [symmetric] isPrime_def)
  then have "p dvd (d * fieldInverse p d - 1)" by (simp add: dvd_eq_mod_eq_0)
  then have "p dvd a * (d * fieldInverse p d - 1)" by simp
  then have "p dvd (d * (a * fieldInverse p d) - a)" by (simp add: algebra_simps)
  with c show ?thesis unfolding rep_def by blast
qed

lemma rep_unique:
  assumes "1 < p" "rep p (of_int s) k"
  shows "k mod p = s mod p"
proof -
  from assms(2) obtain a d where 1: "(of_int s :: rat) = of_int a / of_int d" "coprime d p"
    "p dvd (d * k - a)" unfolding rep_def by blast
  have nz: "d \<noteq> 0" using 1(2) assms(1) by (auto dest: coprime_nonzero)
  then have "(of_int (s * d) :: rat) = of_int a" using 1(1) by (simp add: field_simps)
  then have "a = s * d" by (simp only: of_int_eq_iff)
  with 1(3) have "p dvd d * (k - s)" by (simp add: algebra_simps)
  with 1(2) have "p dvd (k - s)" by (simp add: coprime_commute coprime_dvd_mult_right_iff)
  then show ?thesis by (simp add: mod_eq_dvd_iff)
qed

lemma rep_prod_list:
  assumes "1 < p" "\<And>x. x \<in> set xs \<Longrightarrow> rep p (f x) (g x)"
  shows "rep p (prod_list (map f xs)) (prod_list (map g xs))"
  using assms(2)
proof (induction xs)
  case Nil
  show ?case using rep_of_int [of p 1 1] by simp
next
  case (Cons x xs)
  then show ?case using rep_mult [OF assms(1)] by simp
qed

lemma rep_sum_list:
  assumes "1 < p" "\<And>x. x \<in> set xs \<Longrightarrow> rep p (f x) (g x)"
  shows "rep p (sum_list (map f xs)) (sum_list (map g xs))"
  using assms(2)
proof (induction xs)
  case Nil
  show ?case using rep_of_int [of p 0 0] by simp
next
  case (Cons x xs)
  then show ?case using rep_add [OF assms(1)] by simp
qed


subsection \<open>Interpolation in the model\<close>

lemma evalPoly_horner: "p dvd (evalPoly p cs x - horner cs x)"
proof (induction cs)
  case Nil
  show ?case by simp
next
  case (Cons c cs)
  have "(c + x * evalPoly p cs x) mod p - (c + x * horner cs x)
      = x * (evalPoly p cs x - horner cs x) - p * ((c + x * evalPoly p cs x) div p)"
    by (simp add: algebra_simps minus_mod_eq_mult_div [symmetric])
  moreover have "p dvd x * (evalPoly p cs x - horner cs x)" using Cons by simp
  moreover have "p dvd p * ((c + x * evalPoly p cs x) div p)" by simp
  ultimately show ?case by (simp only: evalPoly.simps horner.simps dvd_diff)
qed

lemma of_int_horner: "(of_int (horner cs x) :: rat) = horner (map of_int cs) (of_int x)"
  by (induction cs) simp_all

lemma rep_basis:
  assumes "isPrime p" "\<And>xm. xm \<in> set xs \<Longrightarrow> xm \<noteq> xj \<Longrightarrow> \<not> p dvd (xm - xj)"
  shows "rep p (prod_list (map (\<lambda>xm. (0 - of_int xm) / (of_int xj - of_int xm))
                 (filter (\<lambda>xm. xm \<noteq> xj) xs)))
               (lagrangeBasisAtZero p xs xj)"
proof -
  from assms(1) have p: "1 < p" by (simp add: isPrime_def)
  have "rep p ((0 - of_int xm) / (of_int xj - of_int xm)) ((xm * fieldInverse p (xm - xj)) mod p)"
    if "xm \<in> set (filter (\<lambda>xm. xm \<noteq> xj) xs)" for xm
  proof -
    from that assms(2) have nd: "\<not> p dvd (xm - xj)" by simp
    have "((0::rat) - of_int xm) / (of_int xj - of_int xm) = of_int xm / of_int (xm - xj)"
      by (simp add: field_simps) (metis minus_diff_eq minus_divide_right)
    then show ?thesis using rep_mod [OF rep_quotient [OF assms(1) nd, of xm]] by simp
  qed
  then have "rep p (prod_list (map (\<lambda>xm. (0 - of_int xm) / (of_int xj - of_int xm))
                 (filter (\<lambda>xm. xm \<noteq> xj) xs)))
      (prod_list (map (\<lambda>xm. (xm * fieldInverse p (xm - xj)) mod p)
                 (filter (\<lambda>xm. xm \<noteq> xj) xs)))"
    by (rule rep_prod_list [OF p])
  then show ?thesis unfolding lagrangeBasisAtZero_def by (rule rep_mod)
qed

lemma rep_interpolate:
  assumes "isPrime p"
    and "\<And>xm xj. xm \<in> set xs \<Longrightarrow> xj \<in> set xs \<Longrightarrow> xm \<noteq> xj \<Longrightarrow> \<not> p dvd (xm - xj)"
  shows "rep p
      (sum_list (map (\<lambda>xj. horner (map of_int cs) (of_int xj)
            * prod_list (map (\<lambda>xm. (0 - of_int xm) / (of_int xj - of_int xm))
                 (filter (\<lambda>xm. xm \<noteq> xj) xs))) xs))
      (interpolateAtZero p (map (\<lambda>x. (x, evalPoly p cs x)) xs))"
proof -
  from assms(1) have p: "1 < p" by (simp add: isPrime_def)
  have fst: "map fst (map (\<lambda>x. (x, evalPoly p cs x)) xs) = xs"
    by (simp add: comp_def)
  have tm: "rep p (horner (map of_int cs) (of_int xj)
            * prod_list (map (\<lambda>xm. (0 - of_int xm) / (of_int xj - of_int xm))
                 (filter (\<lambda>xm. xm \<noteq> xj) xs)))
        ((evalPoly p cs xj * lagrangeBasisAtZero p xs xj) mod p)" if "xj \<in> set xs" for xj
  proof -
    have "rep p (of_int (horner cs xj)) (evalPoly p cs xj)"
      by (rule rep_of_int) (rule evalPoly_horner)
    then have "rep p (horner (map of_int cs) (of_int xj)) (evalPoly p cs xj)"
      by (simp only: of_int_horner)
    moreover have "rep p (prod_list (map (\<lambda>xm. (0 - of_int xm) / (of_int xj - of_int xm))
                 (filter (\<lambda>xm. xm \<noteq> xj) xs))) (lagrangeBasisAtZero p xs xj)"
      by (rule rep_basis [OF assms(1)]) (use assms(2) that in blast)
    ultimately show ?thesis by (intro rep_mod rep_mult [OF p])
  qed
  have "rep p
      (sum_list (map (\<lambda>xj. horner (map of_int cs) (of_int xj)
            * prod_list (map (\<lambda>xm. (0 - of_int xm) / (of_int xj - of_int xm))
                 (filter (\<lambda>xm. xm \<noteq> xj) xs))) xs))
      (sum_list (map (\<lambda>xj. (evalPoly p cs xj * lagrangeBasisAtZero p xs xj) mod p) xs))"
    by (rule rep_sum_list [OF p]) (rule tm)
  then have "rep p
      (sum_list (map (\<lambda>xj. horner (map of_int cs) (of_int xj)
            * prod_list (map (\<lambda>xm. (0 - of_int xm) / (of_int xj - of_int xm))
                 (filter (\<lambda>xm. xm \<noteq> xj) xs))) xs))
      (sum_list (map (\<lambda>xj. (evalPoly p cs xj * lagrangeBasisAtZero p xs xj) mod p) xs) mod p)"
    by (rule rep_mod)
  then show ?thesis
    by (simp add: interpolateAtZero_def fst comp_def)
qed

lemma rational_interpolation_list:
  assumes "distinct xs" "length cs \<le> length xs"
  shows "sum_list (map (\<lambda>xj. horner (map of_int cs) (of_int xj)
            * prod_list (map (\<lambda>xm. (0 - of_int xm) / (of_int xj - of_int xm))
                 (filter (\<lambda>xm. xm \<noteq> xj) xs))) xs)
       = (horner (map of_int cs) 0 :: rat)"
proof -
  define S :: "rat set" where "S = of_int ` set xs"
  have inj: "inj_on (of_int :: int \<Rightarrow> rat) (set xs)" by (simp add: inj_on_def)
  have card: "card S = length xs"
    using assms(1) by (simp add: S_def card_image [OF inj] distinct_card)
  have basis: "prod_list (map (\<lambda>xm. (0 - of_int xm) / (of_int xj - of_int xm))
                 (filter (\<lambda>xm. xm \<noteq> xj) xs)) = lbasis S (of_int xj) 0"
    if "xj \<in> set xs" for xj
  proof -
    have d: "distinct (filter (\<lambda>xm. xm \<noteq> xj) xs)" using assms(1) by simp
    have s: "set (filter (\<lambda>xm. xm \<noteq> xj) xs) = set xs - {xj}" by auto
    have i: "inj_on (of_int :: int \<Rightarrow> rat) (set xs - {xj})" by (simp add: inj_on_def)
    have im: "S - {of_int xj} = of_int ` (set xs - {xj})" by (auto simp: S_def)
    have "prod_list (map (\<lambda>xm. ((0::rat) - of_int xm) / (of_int xj - of_int xm))
                 (filter (\<lambda>xm. xm \<noteq> xj) xs))
        = (\<Prod>xm \<in> set xs - {xj}. (0 - of_int xm) / (of_int xj - of_int xm))"
      using prod.distinct_set_conv_list [OF d, symmetric] by (simp only: s)
    also have "\<dots> = (\<Prod>m \<in> of_int ` (set xs - {xj}). (0 - m) / (of_int xj - m))"
      by (simp add: prod.reindex [OF i])
    finally show ?thesis by (simp only: lbasis_def im)
  qed
  have "sum_list (map (\<lambda>xj. horner (map of_int cs) (of_int xj)
            * prod_list (map (\<lambda>xm. (0 - of_int xm) / (of_int xj - of_int xm))
                 (filter (\<lambda>xm. xm \<noteq> xj) xs))) xs)
      = (\<Sum>xj \<in> set xs. horner (map of_int cs) (of_int xj)
            * prod_list (map (\<lambda>xm. (0 - of_int xm) / (of_int xj - of_int xm))
                 (filter (\<lambda>xm. xm \<noteq> xj) xs)))"
    by (rule sum_list_distinct_conv_sum_set [OF assms(1)])
  also have "\<dots> = (\<Sum>xj \<in> set xs. horner (map of_int cs) (of_int xj) * lbasis S (of_int xj) 0)"
  proof (rule sum.cong)
    fix xj assume "xj \<in> set xs"
    then show "horner (map of_int cs) (of_int xj)
            * prod_list (map (\<lambda>xm. (0 - of_int xm) / (of_int xj - of_int xm))
                 (filter (\<lambda>xm. xm \<noteq> xj) xs))
        = horner (map of_int cs) (of_int xj) * lbasis S (of_int xj) 0"
      by (simp only: basis)
  qed simp
  also have "\<dots> = (\<Sum>j \<in> S. horner (map of_int cs) j * lbasis S j 0)"
    by (simp add: S_def sum.reindex [OF inj])
  also have "\<dots> = horner (map of_int cs) 0"
    by (rule lagrange_interpolation) (simp_all add: S_def card [unfolded S_def] assms(2))
  finally show ?thesis .
qed

lemma interpolateAtZero_correct:
  assumes "isPrime p" "distinct xs" "length cs \<le> length xs" "cs \<noteq> []"
    and "\<And>xm xj. xm \<in> set xs \<Longrightarrow> xj \<in> set xs \<Longrightarrow> xm \<noteq> xj \<Longrightarrow> \<not> p dvd (xm - xj)"
  shows "interpolateAtZero p (map (\<lambda>x. (x, evalPoly p cs x)) xs) = hd cs mod p"
proof -
  from assms(1) have p: "1 < p" by (simp add: isPrime_def)
  obtain c cs' where cs: "cs = c # cs'" using assms(4) by (cases cs) auto
  have "rep p
      (sum_list (map (\<lambda>xj. horner (map of_int cs) (of_int xj)
            * prod_list (map (\<lambda>xm. (0 - of_int xm) / (of_int xj - of_int xm))
                 (filter (\<lambda>xm. xm \<noteq> xj) xs))) xs))
      (interpolateAtZero p (map (\<lambda>x. (x, evalPoly p cs x)) xs))"
    by (rule rep_interpolate [OF assms(1)]) (rule assms(5))
  then have "rep p (horner (map of_int cs) 0)
      (interpolateAtZero p (map (\<lambda>x. (x, evalPoly p cs x)) xs))"
    by (simp only: rational_interpolation_list [OF assms(2,3)])
  then have "rep p (of_int c) (interpolateAtZero p (map (\<lambda>x. (x, evalPoly p cs x)) xs))"
    by (simp add: cs)
  from rep_unique [OF p this]
  have "interpolateAtZero p (map (\<lambda>x. (x, evalPoly p cs x)) xs) mod p = c mod p" .
  moreover have "interpolateAtZero p (map (\<lambda>x. (x, evalPoly p cs x)) xs) mod p
      = interpolateAtZero p (map (\<lambda>x. (x, evalPoly p cs x)) xs)"
    by (simp add: interpolateAtZero_def)
  ultimately show ?thesis by (simp add: cs)
qed

lemma not_dvd_small_diff:
  assumes "1 \<le> a" "a \<le> n" "1 \<le> b" "b \<le> n" "n < p" "a \<noteq> (b::int)"
  shows "\<not> p dvd (a - b)"
proof (cases "b < a")
  case True
  then have "0 < a - b" "a - b < p" using assms by linarith+
  then show ?thesis by (rule zdvd_not_zless)
next
  case False
  with assms(6) have "0 < b - a" "b - a < p" using assms by linarith+
  then have "\<not> p dvd (b - a)" by (rule zdvd_not_zless)
  then show ?thesis by (simp add: dvd_diff_commute)
qed

lemma reconstruct_subset:
  assumes prime: "isPrime p" and s0: "0 \<le> secret" and sp: "secret < p" and np: "int N < p"
    and sp': "split secret T N p rand = Inr shares"
    and dA: "distinct A" and sub: "set A \<subseteq> set shares" and len: "T \<le> length A"
  shows "reconstruct T A p = Inr secret"
proof -
  define cs where "cs = secret # map (\<lambda>i. rand i mod p) [1..<T]"
  define mk where "mk = (\<lambda>x. \<lparr>shareIndex = x, shareValue = evalPoly p cs (int x)\<rparr>)"
  from sp' have T: "1 \<le> T" "T \<le> N" and shares: "shares = map mk [1..<Suc N]"
    by (auto simp: split_def cs_def mk_def Let_def split: if_splits)
  have lcs: "length cs = T" using T by (simp add: cs_def)
  have mem: "s = mk (shareIndex s) \<and> 1 \<le> shareIndex s \<and> shareIndex s \<le> N"
    if "s \<in> set A" for s
  proof -
    from that sub shares obtain x where "x \<in> set [1..<Suc N]" "s = mk x" by auto
    then show ?thesis by (auto simp: mk_def)
  qed
  define xs where "xs = map (\<lambda>s. int (shareIndex s)) A"
  have inj: "inj_on (\<lambda>s. int (shareIndex s)) (set A)"
  proof (rule inj_onI)
    fix s t assume "s \<in> set A" "t \<in> set A" "int (shareIndex s) = int (shareIndex t)"
    then show "s = t" using mem [of s] mem [of t] by simp
  qed
  have dxs: "distinct xs" unfolding xs_def using dA inj by (simp add: distinct_map)
  have pts: "map (\<lambda>s. (int (shareIndex s), shareValue s)) A = map (\<lambda>x. (x, evalPoly p cs x)) xs"
    unfolding xs_def map_map comp_def
  proof (rule map_cong [OF refl])
    fix s assume "s \<in> set A"
    from mem [OF this] have "shareValue s = evalPoly p cs (int (shareIndex s))"
      by (metis KeyShare.select_convs(2) mk_def)
    then show "(int (shareIndex s), shareValue s)
        = (int (shareIndex s), evalPoly p cs (int (shareIndex s)))" by simp
  qed
  have range: "1 \<le> x \<and> x \<le> int N" if "x \<in> set xs" for x
    using that mem by (auto simp: xs_def)
  have nd: "\<not> p dvd (xm - xj)" if "xm \<in> set xs" "xj \<in> set xs" "xm \<noteq> xj" for xm xj
    using range [OF that(1)] range [OF that(2)] np that(3)
    by (intro not_dvd_small_diff [of xm "int N" xj p]) simp_all
  have "interpolateAtZero p (map (\<lambda>x. (x, evalPoly p cs x)) xs) = hd cs mod p"
  proof (rule interpolateAtZero_correct [OF prime dxs _ _ nd])
    show "length cs \<le> length xs" using len by (simp add: lcs xs_def)
    show "cs \<noteq> []" by (simp add: cs_def)
  qed
  also have "\<dots> = secret" using s0 sp by (simp add: cs_def)
  finally show ?thesis using len by (simp add: reconstruct_def pts)
qed


text \<open>Every valid pair \<open>(T, N)\<close> is accepted by \<open>split\<close>, which then hands out \<open>N\<close> shares.\<close>

lemma valid_parameters_split:
  "1 \<le> T \<Longrightarrow> T \<le> N \<Longrightarrow> \<exists>shares. split secret T N p rand = Inr shares \<and> length shares = N"
  by (simp add: split_def Let_def)

text \<open>
  Claim C1. Let \<open>p\<close> be a prime that exceeds the secret and the number of shares (so that
  \<open>1..N\<close> are distinct non-zero field elements), and let \<open>1 \<le> T \<le> N\<close>. Then \<open>split\<close>
  returns \<open>N\<close> shares, \<open>reconstruct\<close> applied to any \<open>T\<close> distinct shares among them
  returns exactly the secret, and so any two subsets of \<open>T\<close> shares reconstruct the same
  value.
\<close>

theorem split_reconstruct:
  assumes "isPrime p" and "0 \<le> secret" and "secret < p" and "int N < p"
    and "1 \<le> T" and "T \<le> N"
  shows "\<exists>shares. split secret T N p rand = Inr shares \<and> length shares = N
      \<and> (\<forall>A. distinct A \<and> set A \<subseteq> set shares \<and> length A = T \<longrightarrow>
            reconstruct T A p = Inr secret)
      \<and> (\<forall>A B. distinct A \<and> set A \<subseteq> set shares \<and> length A = T
              \<and> distinct B \<and> set B \<subseteq> set shares \<and> length B = T \<longrightarrow>
            reconstruct T A p = reconstruct T B p)"
proof -
  from valid_parameters_split [OF assms(5,6)] obtain shares
    where sh: "split secret T N p rand = Inr shares" "length shares = N" by blast
  have one: "reconstruct T A p = Inr secret"
    if "distinct A" "set A \<subseteq> set shares" "length A = T" for A
    by (rule reconstruct_subset [OF assms(1-4) sh(1) that(1,2)]) (simp add: that(3))
  show ?thesis
  proof (intro exI [of _ shares] conjI allI impI)
    show "split secret T N p rand = Inr shares" by (rule sh(1))
    show "length shares = N" by (rule sh(2))
  next
    fix A assume "distinct A \<and> set A \<subseteq> set shares \<and> length A = T"
    then show "reconstruct T A p = Inr secret" using one by blast
  next
    fix A B
    assume "distinct A \<and> set A \<subseteq> set shares \<and> length A = T
              \<and> distinct B \<and> set B \<subseteq> set shares \<and> length B = T"
    then have "reconstruct T A p = Inr secret" "reconstruct T B p = Inr secret"
      using one by blast+
    then show "reconstruct T A p = reconstruct T B p" by simp
  qed
qed

text \<open>
  The theorem for the secret 5 shared 3-of-5 over the field mod 11: the shares 1, 3, 5
  reconstruct 5, and so do the shares 2, 4, 5.
\<close>

lemma prime11: "isPrime 11"
  by (simp add: isPrime_def upt_rec)

lemma split_5_of_3_5:
  "split 5 3 5 11 (\<lambda>i. int i * 7) =
   Inr [\<lparr>shareIndex = 1, shareValue = 4\<rparr>, \<lparr>shareIndex = 2, shareValue = 9\<rparr>,
        \<lparr>shareIndex = 3, shareValue = 9\<rparr>, \<lparr>shareIndex = 4, shareValue = 4\<rparr>,
        \<lparr>shareIndex = 5, shareValue = 5\<rparr>]"
  by (simp add: split_def Let_def upt_rec)

theorem split_reconstruct_witness:
  "split 5 3 5 11 (\<lambda>i. int i * 7) =
     Inr [\<lparr>shareIndex = 1, shareValue = 4\<rparr>, \<lparr>shareIndex = 2, shareValue = 9\<rparr>,
          \<lparr>shareIndex = 3, shareValue = 9\<rparr>, \<lparr>shareIndex = 4, shareValue = 4\<rparr>,
          \<lparr>shareIndex = 5, shareValue = 5\<rparr>]
   \<and> reconstruct 3 [\<lparr>shareIndex = 1, shareValue = 4\<rparr>, \<lparr>shareIndex = 3, shareValue = 9\<rparr>,
        \<lparr>shareIndex = 5, shareValue = 5\<rparr>] 11 = Inr 5
   \<and> reconstruct 3 [\<lparr>shareIndex = 1, shareValue = 4\<rparr>, \<lparr>shareIndex = 3, shareValue = 9\<rparr>,
        \<lparr>shareIndex = 5, shareValue = 5\<rparr>] 11
     = reconstruct 3 [\<lparr>shareIndex = 2, shareValue = 9\<rparr>, \<lparr>shareIndex = 4, shareValue = 4\<rparr>,
        \<lparr>shareIndex = 5, shareValue = 5\<rparr>] 11"
proof -
  let ?A = "[\<lparr>shareIndex = 1, shareValue = 4\<rparr>, \<lparr>shareIndex = 3, shareValue = 9\<rparr>,
        \<lparr>shareIndex = 5, shareValue = 5\<rparr>]"
  let ?B = "[\<lparr>shareIndex = 2, shareValue = 9\<rparr>, \<lparr>shareIndex = 4, shareValue = 4\<rparr>,
        \<lparr>shareIndex = 5, shareValue = 5\<rparr>]"
  have "\<exists>shares. split 5 3 5 11 (\<lambda>i. int i * 7) = Inr shares \<and> length shares = 5
      \<and> (\<forall>A. distinct A \<and> set A \<subseteq> set shares \<and> length A = 3 \<longrightarrow>
            reconstruct 3 A 11 = Inr 5)
      \<and> (\<forall>A B. distinct A \<and> set A \<subseteq> set shares \<and> length A = 3
              \<and> distinct B \<and> set B \<subseteq> set shares \<and> length B = 3 \<longrightarrow>
            reconstruct 3 A 11 = reconstruct 3 B 11)"
    by (rule split_reconstruct [OF prime11]) simp_all
  then obtain shares where sh: "split 5 3 5 11 (\<lambda>i. int i * 7) = Inr shares"
    and one: "\<forall>A. distinct A \<and> set A \<subseteq> set shares \<and> length A = 3 \<longrightarrow>
            reconstruct 3 A 11 = Inr 5"
    and two: "\<forall>A B. distinct A \<and> set A \<subseteq> set shares \<and> length A = 3
              \<and> distinct B \<and> set B \<subseteq> set shares \<and> length B = 3 \<longrightarrow>
            reconstruct 3 A 11 = reconstruct 3 B 11"
    by (elim exE conjE)
  from sh have shares: "shares = [\<lparr>shareIndex = 1, shareValue = 4\<rparr>, \<lparr>shareIndex = 2, shareValue = 9\<rparr>,
          \<lparr>shareIndex = 3, shareValue = 9\<rparr>, \<lparr>shareIndex = 4, shareValue = 4\<rparr>,
          \<lparr>shareIndex = 5, shareValue = 5\<rparr>]"
    by (simp add: split_5_of_3_5)
  have A: "distinct ?A \<and> set ?A \<subseteq> set shares \<and> length ?A = 3" by (simp add: shares)
  have B: "distinct ?B \<and> set ?B \<subseteq> set shares \<and> length ?B = 3" by (simp add: shares)
  from one [rule_format, OF A] have a: "reconstruct 3 ?A 11 = Inr 5" .
  have "distinct ?A \<and> set ?A \<subseteq> set shares \<and> length ?A = 3
      \<and> distinct ?B \<and> set ?B \<subseteq> set shares \<and> length ?B = 3"
    using A B by (intro conjI) (elim conjE, assumption)+
  from two [rule_format, OF this] have b: "reconstruct 3 ?A 11 = reconstruct 3 ?B 11" .
  show ?thesis by (intro conjI) (rule split_5_of_3_5, rule a, rule b)
qed

end
